theory Spec2Isabelle
  imports Main "HOL-Library.Sublist"
begin

section \<open>Data model\<close>

text \<open>
  The generator (\<^verbatim>\<open>src/generate.py\<close>) reads a parsed word-processor document through
  four attributes only: \<^verbatim>\<open>doc.paragraphs\<close> (the top-level paragraphs, in order),
  \<^verbatim>\<open>doc.tables\<close>, and for each table \<^verbatim>\<open>table.rows\<close>, \<^verbatim>\<open>row.cells\<close>,
  \<^verbatim>\<open>cell.paragraphs\<close>. Of a paragraph it reads \<^verbatim>\<open>.style\<close> and \<^verbatim>\<open>.text\<close>.
  The style is an opaque identifier that is only ever copied. A Python \<^verbatim>\<open>str\<close> is
  modelled as a \<open>string\<close>, one \<open>char\<close> per character of the Python string.
\<close>

type_synonym style_id = string

record para =
  p_style :: style_id
  p_text :: string

type_synonym cell = "para list"
type_synonym table_row = "cell list"
type_synonym table = "table_row list"

record document =
  paragraphs :: "para list"
  tables :: "table list"

section \<open>Pattern matcher: \<^verbatim>\<open>re.findall(r'\{([^{}]+)\}', text)\<close>\<close>

definition not_brace :: "char \<Rightarrow> bool" where
  "not_brace c = (c \<noteq> CHR ''{'' \<and> c \<noteq> CHR ''}'')"

text \<open>
  One attempt of the pattern \<^verbatim>\<open>\{([^{}]+)\}\<close> at the start of \<open>s\<close>. The class
  \<^verbatim>\<open>[^{}]+\<close> is greedy and takes the longest run of non-brace characters; every shorter
  run is followed by a non-brace character, so backtracking cannot make \<^verbatim>\<open>\}\<close> match
  where the longest run fails. The attempt yields the captured group and the text after
  the match.
\<close>

definition match_at :: "string \<Rightarrow> (string \<times> string) option" where
  "match_at s =
     (case s of
        [] \<Rightarrow> None
      | c # cs \<Rightarrow>
          if c \<noteq> CHR ''{'' then None
          else (case dropWhile not_brace cs of
                  [] \<Rightarrow> None
                | e # rest \<Rightarrow>
                    if e = CHR ''}'' \<and> takeWhile not_brace cs \<noteq> []
                    then Some (takeWhile not_brace cs, rest)
                    else None))"

lemma match_at_shorter:
  "match_at s = Some (name, rest) \<Longrightarrow> length rest < length s"
proof -
  assume m: "match_at s = Some (name, rest)"
  then obtain c cs where s: "s = c # cs"
    by (cases s) (auto simp: match_at_def)
  from m s obtain e where d: "dropWhile not_brace cs = e # rest"
    by (auto simp: match_at_def split: if_splits list.splits)
  have "length (dropWhile not_brace cs) \<le> length cs"
    by (rule length_dropWhile_le)
  with d s show ?thesis by simp
qed

text \<open>
  \<^verbatim>\<open>re.findall\<close> scans from left to right; after a match it resumes behind the match,
  after a failed attempt one character further. With one capturing group it returns the
  list of captured names.
\<close>

function findall :: "string \<Rightarrow> string list" where
  "findall s =
     (if s = [] then []
      else (case match_at s of
              Some (name, rest) \<Rightarrow> name # findall rest
            | None \<Rightarrow> findall (tl s)))"
  by pat_completeness auto
termination
  by (relation "measure length") (auto simp: match_at_shorter)

declare findall.simps [simp del]

section \<open>Template indexer: \<^verbatim>\<open>extract_variables_from_template\<close>\<close>

text \<open>
  \<^verbatim>\<open>var_paragraphs\<close> is a \<^verbatim>\<open>defaultdict(list)\<close>: a dictionary from variable name to
  the list of paragraph indices. Reading it with \<^verbatim>\<open>.get(var, [])\<close> gives the empty
  list for a missing key and stores nothing; \<^verbatim>\<open>var_paragraphs[m].append(i)\<close> creates
  the entry when it is missing.
\<close>

type_synonym posindex = "string \<rightharpoonup> nat list"

definition dict_get :: "posindex \<Rightarrow> string \<Rightarrow> nat list" where
  "dict_get vp var = (case vp var of None \<Rightarrow> [] | Some l \<Rightarrow> l)"

fun index_matches :: "nat \<Rightarrow> string list \<Rightarrow> string set \<times> posindex \<Rightarrow> string set \<times> posindex" where
  "index_matches i [] acc = acc"
| "index_matches i (m # ms) (variables, vp) =
     index_matches i ms (insert m variables, vp(m \<mapsto> dict_get vp m @ [i]))"

fun index_paragraphs :: "nat \<Rightarrow> para list \<Rightarrow> string set \<times> posindex \<Rightarrow> string set \<times> posindex" where
  "index_paragraphs i [] acc = acc"
| "index_paragraphs i (p # ps) acc =
     index_paragraphs (Suc i) ps (index_matches i (findall (p_text p)) acc)"

definition scan_cell :: "cell \<Rightarrow> string set \<Rightarrow> string set" where
  "scan_cell c variables = fold (\<lambda>p vs. vs \<union> set (findall (p_text p))) c variables"

definition scan_tables :: "table list \<Rightarrow> string set \<Rightarrow> string set" where
  "scan_tables ts variables =
     fold (\<lambda>t vs. fold (\<lambda>r vs. fold scan_cell r vs) t vs) ts variables"

text \<open>
  The function returns \<^verbatim>\<open>list(variables)\<close>, a list of the set in no specified order,
  and the position index; the model keeps the set.
\<close>

definition extract_variables_from_template :: "document \<Rightarrow> string set \<times> posindex" where
  "extract_variables_from_template doc =
     (case index_paragraphs 0 (paragraphs doc) ({}, Map.empty) of
        (variables, vp) \<Rightarrow> (scan_tables (tables doc) variables, vp))"

section \<open>Cell values and \<^verbatim>\<open>str(value)\<close>\<close>

text \<open>
  A row of the data frame maps a column name to a scalar. \<^verbatim>\<open>row[column]\<close> raises
  \<^verbatim>\<open>KeyError\<close> for a column the row does not have. The scalars modelled are text,
  integers, booleans, the missing-value marker NaN and \<^verbatim>\<open>None\<close>; other floating
  point cells are outside the model.
\<close>

datatype scalar = SStr string | SInt int | SBool bool | SNaN | SNone

type_synonym row = "string \<rightharpoonup> scalar"

datatype py_error =
    KeyError string
  | TemplateError

definition digit_char :: "nat \<Rightarrow> char" where
  "digit_char n = ''0123456789'' ! n"

function str_nat :: "nat \<Rightarrow> string" where
  "str_nat n = (if n < 10 then [digit_char n] else str_nat (n div 10) @ [digit_char (n mod 10)])"
  by pat_completeness auto
termination
  by (relation "measure id") auto

declare str_nat.simps [simp del]

fun py_str :: "scalar \<Rightarrow> string" where
  "py_str (SStr s) = s"
| "py_str (SInt i) = (if i < 0 then CHR ''-'' # str_nat (nat (- i)) else str_nat (nat i))"
| "py_str (SBool b) = (if b then ''True'' else ''False'')"
| "py_str SNaN = ''nan''"
| "py_str SNone = ''None''"

section \<open>Literal patterns and \<^verbatim>\<open>pattern.sub(repl, text)\<close>\<close>

text \<open>
  \<^verbatim>\<open>re.compile(r'\{' + re.escape(var) + r'\}')\<close> is a pattern that matches exactly the
  text \<open>{var}\<close>: \<^verbatim>\<open>re.escape\<close> takes the special meaning from every character of
  \<open>var\<close>. The compiled pattern is modelled by the literal text it matches.
\<close>

definition token :: "string \<Rightarrow> string" where
  "token var = CHR ''{'' # var @ ''}''"

text \<open>
  Replacing the matches of a non-empty literal: leftmost match first, the scan resumes
  behind each match. \<^verbatim>\<open>str.replace(old, new)\<close> with a non-empty \<open>old\<close> does the same.
\<close>

function sub_literal :: "string \<Rightarrow> string \<Rightarrow> string \<Rightarrow> string" where
  "sub_literal pat rep s =
     (if s = [] then []
      else if pat \<noteq> [] \<and> prefix pat s then rep @ sub_literal pat rep (drop (length pat) s)
      else hd s # sub_literal pat rep (tl s))"
  by pat_completeness auto
termination
  by (relation "measure (\<lambda>(pat, rep, s). length s)") auto

declare sub_literal.simps [simp del]

text \<open>
  A replacement string that contains a backslash is a template: the \<^verbatim>\<open>re\<close> module
  compiles it (\<^verbatim>\<open>parse_template\<close>) before it looks for a match. The pattern here has
  no capturing group, so the only group a template can name is group 0, the whole match.
  The escapes are those of CPython 3.12; an error stands for the \<^verbatim>\<open>re.error\<close> or
  \<^verbatim>\<open>IndexError\<close> that the compilation raises.
\<close>

datatype tpl_item = Lit char | WholeMatch

definition is_digit :: "char \<Rightarrow> bool" where
  "is_digit c = (c \<in> set ''0123456789'')"

definition is_octdigit :: "char \<Rightarrow> bool" where
  "is_octdigit c = (c \<in> set ''01234567'')"

definition is_ascii_letter :: "char \<Rightarrow> bool" where
  "is_ascii_letter c =
     (c \<in> set ''abcdefghijklmnopqrstuvwxyzABCDEFGHIJKLMNOPQRSTUVWXYZ'')"

definition digit_val :: "char \<Rightarrow> nat" where
  "digit_val c = of_char c - 48"

definition backslash :: char where
  "backslash = CHR 0x5C"

definition escape_char :: "char \<Rightarrow> char option" where
  "escape_char e =
     (if e = CHR ''a'' then Some (CHR 0x07)
      else if e = CHR ''b'' then Some (CHR 0x08)
      else if e = CHR ''f'' then Some (CHR 0x0C)
      else if e = CHR ''n'' then Some (CHR 0x0A)
      else if e = CHR ''r'' then Some (CHR 0x0D)
      else if e = CHR ''t'' then Some (CHR 0x09)
      else if e = CHR ''v'' then Some (CHR 0x0B)
      else if e = backslash then Some backslash
      else None)"

text \<open>\<^verbatim>\<open>\g<name>\<close>: the text behind \<^verbatim>\<open>\g\<close>.\<close>

definition group_ref :: "string \<Rightarrow> py_error + tpl_item list \<times> string" where
  "group_ref s =
     (case s of
        [] \<Rightarrow> Inl TemplateError
      | lt # r \<Rightarrow>
          if lt \<noteq> CHR ''<'' then Inl TemplateError
          else (case dropWhile (\<lambda>c. c \<noteq> CHR ''>'') r of
                  [] \<Rightarrow> Inl TemplateError
                | gt # after \<Rightarrow>
                    if takeWhile (\<lambda>c. c \<noteq> CHR ''>'') r \<noteq> []
                       \<and> list_all (\<lambda>c. c = CHR ''0'') (takeWhile (\<lambda>c. c \<noteq> CHR ''>'') r)
                    then Inr ([WholeMatch], after)
                    else Inl TemplateError))"

text \<open>\<^verbatim>\<open>\0\<close> with up to two more octal digits: the character of that code.\<close>

definition octal_zero :: "string \<Rightarrow> tpl_item list \<times> string" where
  "octal_zero s =
     (case s of
        [] \<Rightarrow> ([Lit (char_of (0::nat))], [])
      | a # r1 \<Rightarrow>
          if \<not> is_octdigit a then ([Lit (char_of (0::nat))], s)
          else (case r1 of
                  [] \<Rightarrow> ([Lit (char_of (digit_val a))], [])
                | b # r2 \<Rightarrow>
                    if is_octdigit b
                    then ([Lit (char_of ((8 * digit_val a + digit_val b) mod 256))], r2)
                    else ([Lit (char_of (digit_val a))], r1)))"

text \<open>
  \<^verbatim>\<open>\1\<close> to \<^verbatim>\<open>\9\<close>: three octal digits are a character code; anything else is
  a reference to a numbered group, and the pattern has none.
\<close>

definition digit_escape :: "char \<Rightarrow> string \<Rightarrow> py_error + tpl_item list \<times> string" where
  "digit_escape e s =
     (case s of
        [] \<Rightarrow> Inl TemplateError
      | d2 # r1 \<Rightarrow>
          (case r1 of
             [] \<Rightarrow> Inl TemplateError
           | d3 # r2 \<Rightarrow>
               if is_octdigit e \<and> is_octdigit d2 \<and> is_octdigit d3
               then (if 64 * digit_val e + 8 * digit_val d2 + digit_val d3 > 255
                     then Inl TemplateError
                     else Inr ([Lit (char_of (64 * digit_val e + 8 * digit_val d2 + digit_val d3))], r2))
               else Inl TemplateError))"

text \<open>One escape: the text behind a backslash.\<close>

definition escape_item :: "string \<Rightarrow> py_error + tpl_item list \<times> string" where
  "escape_item s =
     (case s of
        [] \<Rightarrow> Inl TemplateError
      | e # rest \<Rightarrow>
          if e = CHR ''g'' then group_ref rest
          else if e = CHR ''0'' then Inr (octal_zero rest)
          else if is_digit e then digit_escape e rest
          else (case escape_char e of
                  Some x \<Rightarrow> Inr ([Lit x], rest)
                | None \<Rightarrow>
                    if is_ascii_letter e then Inl TemplateError
                    else Inr ([Lit backslash, Lit e], rest)))"

lemma group_ref_shorter: "group_ref s = Inr (its, rest) \<Longrightarrow> length rest < length s"
proof -
  assume g: "group_ref s = Inr (its, rest)"
  then obtain lt r where s: "s = lt # r"
    by (cases s) (auto simp: group_ref_def)
  from g s obtain gt where "dropWhile (\<lambda>c. c \<noteq> CHR ''>'') r = gt # rest"
    by (auto simp: group_ref_def split: if_splits list.splits)
  moreover have "length (dropWhile (\<lambda>c. c \<noteq> CHR ''>'') r) \<le> length r"
    by (rule length_dropWhile_le)
  ultimately show ?thesis using s by simp
qed

lemma escape_item_shorter: "escape_item s = Inr (its, rest) \<Longrightarrow> length rest < length s"
  by (cases s)
     (auto simp: escape_item_def octal_zero_def digit_escape_def
           dest: group_ref_shorter split: if_splits list.splits option.splits)

function parse_template :: "string \<Rightarrow> py_error + tpl_item list" where
  "parse_template s =
     (case s of
        [] \<Rightarrow> Inr []
      | c # cs \<Rightarrow>
          if c \<noteq> backslash
          then (case parse_template cs of
                  Inl err \<Rightarrow> Inl err
                | Inr its \<Rightarrow> Inr (Lit c # its))
          else (case escape_item cs of
                  Inl err \<Rightarrow> Inl err
                | Inr (its, rest) \<Rightarrow>
                    (case parse_template rest of
                       Inl err \<Rightarrow> Inl err
                     | Inr its' \<Rightarrow> Inr (its @ its'))))"
  by pat_completeness auto
termination
  by (relation "measure length") (auto dest: escape_item_shorter)

declare parse_template.simps [simp del]

fun expand_template :: "tpl_item list \<Rightarrow> string \<Rightarrow> string" where
  "expand_template [] m = []"
| "expand_template (Lit c # its) m = c # expand_template its m"
| "expand_template (WholeMatch # its) m = m @ expand_template its m"

definition pattern_sub :: "string \<Rightarrow> string \<Rightarrow> string \<Rightarrow> py_error + string" where
  "pattern_sub pat repl s =
     (if backslash \<notin> set repl then Inr (sub_literal pat repl s)
      else (case parse_template repl of
              Inl err \<Rightarrow> Inl err
            | Inr its \<Rightarrow> Inr (sub_literal pat (expand_template its pat) s)))"

section \<open>Filename deriver and output path\<close>

text \<open>
  \<^verbatim>\<open>\w\<close> in a \<^verbatim>\<open>str\<close> pattern: the ASCII letters, the digits, the underscore, and
  beyond ASCII the alphanumeric characters of the Unicode tables of the Python runtime.
  Those tables are not part of the repository; they enter as the parameter \<open>uw\<close>, asked
  only about characters outside ASCII.
\<close>

definition is_word :: "(char \<Rightarrow> bool) \<Rightarrow> char \<Rightarrow> bool" where
  "is_word uw c =
     (is_ascii_letter c \<or> is_digit c \<or> c = CHR ''_''
      \<or> ((128::nat) \<le> of_char c \<and> uw c))"

text \<open>The class \<^verbatim>\<open>[^\w\-_\.]\<close>.\<close>

definition invalid_char :: "(char \<Rightarrow> bool) \<Rightarrow> char \<Rightarrow> bool" where
  "invalid_char uw c =
     (\<not> (is_word uw c \<or> c = CHR ''-'' \<or> c = CHR ''_'' \<or> c = CHR ''.''))"

text \<open>
  \<^verbatim>\<open>re.sub\<close> with a pattern that is one character class: every character of the
  class is a match and is replaced. The replacement \<^verbatim>\<open>''\<close> has no backslash.
\<close>

definition re_sub_class :: "(char \<Rightarrow> bool) \<Rightarrow> string \<Rightarrow> string \<Rightarrow> string" where
  "re_sub_class cls repl s = concat (map (\<lambda>c. if cls c then repl else [c]) s)"

definition derive_filename :: "(char \<Rightarrow> bool) \<Rightarrow> string \<Rightarrow> string" where
  "derive_filename uw s = re_sub_class (invalid_char uw) [] (sub_literal '' '' ''_'' s)"

text \<open>\<^verbatim>\<open>os.path.join(a, b)\<close> as \<^verbatim>\<open>posixpath\<close> defines it.\<close>

definition os_path_join :: "string \<Rightarrow> string \<Rightarrow> string" where
  "os_path_join a b =
     (if b \<noteq> [] \<and> hd b = CHR ''/'' then b
      else if a = [] \<or> last a = CHR ''/'' then a @ b
      else a @ ''/'' @ b)"

section \<open>Program state\<close>

text \<open>
  Documents are mutable objects. The store \<open>docs\<close> holds them, and a reference to a
  document is its position in the store. \<open>files\<close> is the content of the file system
  as far as \<^verbatim>\<open>doc.save(path)\<close> writes it, \<open>dirs\<close> the directories that
  \<^verbatim>\<open>os.makedirs\<close> has created, and \<open>var_paragraphs_map\<close> the position index the caller
  passes by reference. Failures of the operating system are outside the model.
\<close>

record state =
  docs :: "document list"
  var_paragraphs_map :: posindex
  files :: "string \<rightharpoonup> document"
  dirs :: "string set"

text \<open>\<^verbatim>\<open>Document()\<close>: a new document from the library's blank default template.\<close>

definition Document_new :: "state \<Rightarrow> nat \<times> state" where
  "Document_new st =
     (length (docs st), st\<lparr>docs := docs st @ [\<lparr>paragraphs = [], tables = []\<rparr>]\<rparr>)"

text \<open>
  \<^verbatim>\<open>new_paragraph = doc.add_paragraph()\<close> followed by
  \<^verbatim>\<open>new_paragraph.style = template_para.style\<close>: a paragraph without text, with that
  style, at the end of document \<open>d\<close>.
\<close>

definition add_paragraph :: "nat \<Rightarrow> style_id \<Rightarrow> state \<Rightarrow> state" where
  "add_paragraph d sty st =
     st\<lparr>docs := (docs st)[d := (docs st ! d)
           \<lparr>paragraphs := paragraphs (docs st ! d) @ [\<lparr>p_style = sty, p_text = []\<rparr>]\<rparr>]\<rparr>"

text \<open>\<^verbatim>\<open>new_paragraph.text = text\<close>: the paragraph added last to document \<open>d\<close>.\<close>

definition set_text :: "nat \<Rightarrow> string \<Rightarrow> state \<Rightarrow> state" where
  "set_text d txt st =
     st\<lparr>docs := (docs st)[d := (docs st ! d)
           \<lparr>paragraphs := butlast (paragraphs (docs st ! d))
                            @ [(last (paragraphs (docs st ! d)))\<lparr>p_text := txt\<rparr>]\<rparr>]\<rparr>"

definition save :: "nat \<Rightarrow> string \<Rightarrow> state \<Rightarrow> state" where
  "save d path st = st\<lparr>files := (files st)(path \<mapsto> docs st ! d)\<rparr>"

definition makedirs :: "string \<Rightarrow> state \<Rightarrow> state" where
  "makedirs path st = st\<lparr>dirs := insert path (dirs st)\<rparr>"

section \<open>Row renderer and batch driver: \<^verbatim>\<open>generate_documents\<close>\<close>

text \<open>
  A column mapping is a dictionary from variable name to column name, in insertion order:
  a list of pairs whose first components are distinct.
\<close>

type_synonym column_mapping = "(string \<times> string) list"

text \<open>
  Line 90, \<^verbatim>\<open>{var: str(row[column]) for var, column in column_mapping.items()}\<close>:
  the first column that the row lacks raises \<^verbatim>\<open>KeyError\<close>.
\<close>

fun replacements :: "row \<Rightarrow> column_mapping \<Rightarrow> py_error + (string \<times> string) list" where
  "replacements r [] = Inr []"
| "replacements r ((var, column) # cm) =
     (case r column of
        None \<Rightarrow> Inl (KeyError column)
      | Some v \<Rightarrow>
          (case replacements r cm of
             Inl err \<Rightarrow> Inl err
           | Inr reps \<Rightarrow> Inr ((var, py_str v) # reps)))"

text \<open>Line 101: the mapped variables that the position index lists for paragraph \<open>i\<close>.\<close>

definition variables_to_replace :: "column_mapping \<Rightarrow> posindex \<Rightarrow> nat \<Rightarrow> string list" where
  "variables_to_replace cm vp i = filter (\<lambda>var. i \<in> set (dict_get vp var)) (map fst cm)"

text \<open>Lines 103 to 107: one substitution after the other, in the order of the mapping.\<close>

fun substitute_all :: "(string \<times> string) list \<Rightarrow> string list \<Rightarrow> string \<Rightarrow> py_error + string" where
  "substitute_all reps [] txt = Inr txt"
| "substitute_all reps (var # vars) txt =
     (case map_of reps var of
        None \<Rightarrow> Inl (KeyError var)
      | Some replacement_value \<Rightarrow>
          (case pattern_sub (token var) replacement_value txt of
             Inl err \<Rightarrow> Inl err
           | Inr txt' \<Rightarrow> substitute_all reps vars txt'))"

definition render_text ::
  "column_mapping \<Rightarrow> posindex \<Rightarrow> (string \<times> string) list \<Rightarrow> nat \<Rightarrow> string \<Rightarrow> py_error + string" where
  "render_text cm vp reps i txt = substitute_all reps (variables_to_replace cm vp i) txt"

text \<open>
  Lines 93 to 109, the loop over \<^verbatim>\<open>enumerate(template_doc.paragraphs)\<close> from index
  \<open>i\<close> on, writing to the document \<open>d\<close>. An exception leaves the loop with the state as
  it is then.
\<close>

fun render_paragraphs ::
  "column_mapping \<Rightarrow> (string \<times> string) list \<Rightarrow> nat \<Rightarrow> nat \<Rightarrow> para list \<Rightarrow> state
     \<Rightarrow> py_error option \<times> state" where
  "render_paragraphs cm reps d i [] st = (None, st)"
| "render_paragraphs cm reps d i (template_para # ps) st =
     (case render_text cm (var_paragraphs_map st) reps i (p_text template_para) of
        Inl err \<Rightarrow> (Some err, add_paragraph d (p_style template_para) st)
      | Inr txt \<Rightarrow>
          render_paragraphs cm reps d (Suc i) ps
            (set_text d txt (add_paragraph d (p_style template_para) st)))"

text \<open>
  Lines 86 to 118, the body of the loop over the rows, for the template document at
  reference \<open>t\<close>.
\<close>

definition generate_row ::
  "(char \<Rightarrow> bool) \<Rightarrow> nat \<Rightarrow> column_mapping \<Rightarrow> string \<Rightarrow> string \<Rightarrow> row \<Rightarrow> state
     \<Rightarrow> py_error option \<times> state" where
  "generate_row uw t cm filename_column output_dir r st =
     (case Document_new st of
        (d, st1) \<Rightarrow>
          (case replacements r cm of
             Inl err \<Rightarrow> (Some err, st1)
           | Inr reps \<Rightarrow>
               (case render_paragraphs cm reps d 0 (paragraphs (docs st1 ! t)) st1 of
                  (Some err, st2) \<Rightarrow> (Some err, st2)
                | (None, st2) \<Rightarrow>
                    (case r filename_column of
                       None \<Rightarrow> (Some (KeyError filename_column), st2)
                     | Some v \<Rightarrow>
                         (None,
                          save d (os_path_join output_dir
                                    (derive_filename uw (py_str v) @ ''.docx'')) st2)))))"

fun generate_rows ::
  "(char \<Rightarrow> bool) \<Rightarrow> nat \<Rightarrow> column_mapping \<Rightarrow> string \<Rightarrow> string \<Rightarrow> row list \<Rightarrow> nat \<Rightarrow> state
     \<Rightarrow> (py_error + nat) \<times> state" where
  "generate_rows uw t cm filename_column output_dir [] doc_count st = (Inr doc_count, st)"
| "generate_rows uw t cm filename_column output_dir (r # rs) doc_count st =
     (case generate_row uw t cm filename_column output_dir r st of
        (Some err, st') \<Rightarrow> (Inl err, st')
      | (None, st') \<Rightarrow>
          generate_rows uw t cm filename_column output_dir rs (Suc doc_count) st')"

text \<open>
  \<^verbatim>\<open>generate_documents(df, template_doc, column_mapping, filename_column, output_dir,
  var_paragraphs_map)\<close>; the two objects passed by reference are \<open>docs st ! t\<close> and
  \<open>var_paragraphs_map st\<close>.
\<close>

definition generate_documents ::
  "(char \<Rightarrow> bool) \<Rightarrow> row list \<Rightarrow> nat \<Rightarrow> column_mapping \<Rightarrow> string \<Rightarrow> string \<Rightarrow> state
     \<Rightarrow> (py_error + nat) \<times> state" where
  "generate_documents uw df t cm filename_column output_dir st =
     generate_rows uw t cm filename_column output_dir df 0 (makedirs output_dir st)"

section \<open>Notions of the specification\<close>

text \<open>
  A variable name is a non-empty text without braces; its token is the name in braces
  (\<open>token\<close> above). A text contains a token when the token is a contiguous part of it
  (\<open>sublist\<close>).
\<close>

definition valid_name :: "string \<Rightarrow> bool" where
  "valid_name v = (v \<noteq> [] \<and> list_all not_brace v)"

text \<open>
  The texts of a template: those of its top-level paragraphs and those of the paragraphs
  in the cells of its tables.
\<close>

definition cell_paragraphs :: "document \<Rightarrow> para list" where
  "cell_paragraphs doc = concat (concat (concat (tables doc)))"

definition template_texts :: "document \<Rightarrow> string list" where
  "template_texts doc = map p_text (paragraphs doc @ cell_paragraphs doc)"

text \<open>A template of two paragraphs and one table of one cell, used in the examples.\<close>

definition example_template :: document where
  "example_template =
     \<lparr>paragraphs =
        [\<lparr>p_style = ''Title'', p_text = ''Dear {name},''\<rparr>,
         \<lparr>p_style = ''Normal'', p_text = ''Your balance is {amount}.''\<rparr>],
      tables = [[[[\<lparr>p_style = ''Normal'', p_text = ''Ref {ref}''\<rparr>]]]]\<rparr>"

text \<open>
  The filename deriver as the specification words it: every space becomes an underscore,
  then every character that is not a word character, a hyphen, an underscore or a period
  is removed.
\<close>

definition space_to_underscore :: "char \<Rightarrow> char" where
  "space_to_underscore c = (if c = CHR '' '' then CHR ''_'' else c)"

definition filename_spec :: "(char \<Rightarrow> bool) \<Rightarrow> string \<Rightarrow> string" where
  "filename_spec uw s =
     filter (\<lambda>c. is_word uw c \<or> c = CHR ''-'' \<or> c = CHR ''_'' \<or> c = CHR ''.'')
       (map space_to_underscore s)"

text \<open>
  The path under which a row is saved, and what it means for a path to name a direct
  child of a directory: the directory, one separator, and a name without separators.
\<close>

definition output_path :: "(char \<Rightarrow> bool) \<Rightarrow> string \<Rightarrow> scalar \<Rightarrow> string" where
  "output_path uw output_dir v = os_path_join output_dir (derive_filename uw (py_str v) @ ''.docx'')"

definition dir_prefix :: "string \<Rightarrow> string" where
  "dir_prefix dir = (if dir = [] \<or> last dir = CHR ''/'' then dir else dir @ ''/'')"

definition direct_child :: "string \<Rightarrow> string \<Rightarrow> bool" where
  "direct_child dir p =
     (prefix (dir_prefix dir) p
      \<and> CHR ''/'' \<notin> set (drop (length (dir_prefix dir)) p)
      \<and> backslash \<notin> set (drop (length (dir_prefix dir)) p))"

text \<open>The number of places of a text at which a token occurs.\<close>

fun count_occ :: "string \<Rightarrow> string \<Rightarrow> nat" where
  "count_occ tok [] = 0"
| "count_occ tok (c # cs) = (if prefix tok (c # cs) then 1 else 0) + count_occ tok cs"

text \<open>
  Two abbreviations for the statements about the store: appending paragraphs to the
  document at a reference, and the paragraphs of a rendered document, each with the
  style of the template paragraph and its own text.
\<close>

definition append_paras :: "nat \<Rightarrow> para list \<Rightarrow> state \<Rightarrow> state" where
  "append_paras d ps st =
     st\<lparr>docs := (docs st)[d := (docs st ! d)\<lparr>paragraphs := paragraphs (docs st ! d) @ ps\<rparr>]\<rparr>"

definition rendered :: "para list \<Rightarrow> string list \<Rightarrow> para list" where
  "rendered ps txts = map (\<lambda>(tp, txt). \<lparr>p_style = p_style tp, p_text = txt\<rparr>) (zip ps txts)"

text \<open>The state in which the example template is the only document, indexed.\<close>

definition example_state :: state where
  "example_state =
     \<lparr>docs = [example_template],
      var_paragraphs_map = snd (extract_variables_from_template example_template),
      files = Map.empty, dirs = {}\<rparr>"

definition example_row :: row where
  "example_row = [''name'' \<mapsto> SStr ''Ana'', ''amount'' \<mapsto> SInt 42, ''ref'' \<mapsto> SStr ''R1'']"

text \<open>
  Inputs of the examples: a word table without word characters beyond ASCII, rows and
  column mappings.
\<close>

definition ascii_only :: "char \<Rightarrow> bool" where
  "ascii_only c = False"

definition name_only_row :: row where
  "name_only_row = [''name'' \<mapsto> SStr ''Ana'']"

definition backslash_t_row :: row where
  "backslash_t_row = [''id'' \<mapsto> SStr ''r1'', ''name'' \<mapsto> SStr (''C:'' @ [CHR 0x5C] @ ''temp'')]"

definition backslash_U_row :: row where
  "backslash_U_row = [''id'' \<mapsto> SStr ''r2'', ''name'' \<mapsto> SStr (''C:'' @ [CHR 0x5C] @ ''Users'')]"

definition full_mapping :: column_mapping where
  "full_mapping = [(''name'', ''name''), (''amount'', ''amount'')]"

definition name_mapping :: column_mapping where
  "name_mapping = [(''name'', ''name'')]"

definition all_mapping :: column_mapping where
  "all_mapping = [(''name'', ''name''), (''amount'', ''amount''), (''ref'', ''ref'')]"

definition blank_name_row :: row where
  "blank_name_row = [''name'' \<mapsto> SStr []]"

definition nan_row :: row where
  "nan_row = [''name'' \<mapsto> SNaN]"

text \<open>The document that the example run with \<open>full_mapping\<close> saves.\<close>

definition saved_without_ref :: document where
  "saved_without_ref =
     \<lparr>paragraphs =
        [\<lparr>p_style = ''Title'', p_text = ''Dear Ana,''\<rparr>,
         \<lparr>p_style = ''Normal'', p_text = ''Your balance is 42.''\<rparr>],
      tables = []\<rparr>"

section \<open>The pattern matcher finds exactly the tokens\<close>

lemma takeWhile_name:
  "list_all not_brace name \<Longrightarrow> takeWhile not_brace (name @ CHR ''}'' # rest) = name"
  by (induction name) (auto simp: not_brace_def)

lemma dropWhile_name:
  "list_all not_brace name \<Longrightarrow> dropWhile not_brace (name @ CHR ''}'' # rest) = CHR ''}'' # rest"
  by (induction name) (auto simp: not_brace_def)

lemma match_at_Some_iff:
  "match_at s = Some (name, rest) \<longleftrightarrow> valid_name name \<and> s = token name @ rest"
proof
  assume m: "match_at s = Some (name, rest)"
  then obtain cs where s: "s = CHR ''{'' # cs"
    by (cases s) (auto simp: match_at_def split: if_splits)
  from m s have d: "dropWhile not_brace cs = CHR ''}'' # rest"
    and t: "takeWhile not_brace cs = name" and n: "name \<noteq> []"
    by (auto simp: match_at_def split: if_splits list.splits)
  have "cs = takeWhile not_brace cs @ dropWhile not_brace cs" by simp
  with d t have cs: "cs = name @ CHR ''}'' # rest" by simp
  have "list_all not_brace (takeWhile not_brace cs)"
    by (simp add: list_all_iff) (meson set_takeWhileD)
  with t have "list_all not_brace name" by simp
  with n s cs show "valid_name name \<and> s = token name @ rest"
    by (simp add: valid_name_def token_def)
next
  assume "valid_name name \<and> s = token name @ rest"
  then show "match_at s = Some (name, rest)"
    by (simp add: match_at_def valid_name_def token_def takeWhile_name dropWhile_name)
qed

lemma findall_sound:
  "v \<in> set (findall s) \<Longrightarrow> valid_name v \<and> sublist (token v) s"
proof (induction s rule: findall.induct)
  case (1 s)
  show ?case
  proof (cases "s = []")
    case True
    with "1.prems" show ?thesis by (simp add: findall.simps)
  next
    case False
    show ?thesis
    proof (cases "match_at s")
      case None
      with False "1.prems" have "v \<in> set (findall (tl s))"
        by (simp add: findall.simps [of s])
      with "1.IH" False None have "valid_name v \<and> sublist (token v) (tl s)" by blast
      moreover have "sublist (tl s) s" by simp
      ultimately show ?thesis using sublist_order.order_trans by blast
    next
      case (Some a)
      obtain name rest where a: "a = (name, rest)" by (cases a)
      with Some have m: "match_at s = Some (name, rest)" by simp
      then have vn: "valid_name name" and s: "s = token name @ rest"
        by (simp_all add: match_at_Some_iff)
      from False m "1.prems" have "v = name \<or> v \<in> set (findall rest)"
        by (simp add: findall.simps [of s])
      then show ?thesis
      proof
        assume "v = name"
        with vn s show ?thesis by simp
      next
        assume "v \<in> set (findall rest)"
        with "1.IH" False m have "valid_name v \<and> sublist (token v) rest" by blast
        moreover have "sublist rest s" using s by simp
        ultimately show ?thesis using sublist_order.order_trans by blast
      qed
    qed
  qed
qed

text \<open>A token cannot begin inside a stretch of text free of opening braces.\<close>

lemma sublist_skip:
  "CHR ''{'' \<notin> set xs \<Longrightarrow> sublist (token v) (xs @ ys) \<Longrightarrow> sublist (token v) ys"
proof (induction xs)
  case Nil
  then show ?case by simp
next
  case (Cons x xs)
  from Cons.prems have "x \<noteq> CHR ''{''" by auto
  then have "\<not> prefix (token v) ((x # xs) @ ys)" by (auto simp: token_def)
  with Cons.prems(2) have "sublist (token v) (xs @ ys)"
    by (simp add: sublist_Cons_right)
  with Cons show ?case by simp
qed

lemma prefix_token_same:
  assumes "valid_name v" "valid_name w" "prefix (token v) (token w @ rest)"
  shows "v = w"
proof -
  from assms(3) obtain zs where "token w @ rest = token v @ zs"
    by (auto simp: prefix_def)
  then have e: "w @ CHR ''}'' # rest = v @ CHR ''}'' # zs" by (simp add: token_def)
  have "takeWhile not_brace (w @ CHR ''}'' # rest) = w"
    using assms(2) by (simp add: takeWhile_name valid_name_def)
  moreover have "takeWhile not_brace (v @ CHR ''}'' # zs) = v"
    using assms(1) by (simp add: takeWhile_name valid_name_def)
  ultimately show ?thesis using e by simp
qed

lemma brace_notin_name: "valid_name w \<Longrightarrow> CHR ''{'' \<notin> set (w @ ''}'')"
  by (auto simp: valid_name_def list_all_iff not_brace_def)

lemma findall_complete:
  "valid_name v \<Longrightarrow> sublist (token v) s \<Longrightarrow> v \<in> set (findall s)"
proof (induction s rule: findall.induct)
  case (1 s)
  from "1.prems"(2) have ne: "s \<noteq> []" by (auto simp: token_def)
  then obtain c cs where s: "s = c # cs" by (cases s) auto
  show ?case
  proof (cases "match_at s")
    case None
    have "\<not> prefix (token v) s"
    proof
      assume "prefix (token v) s"
      then obtain zs where "s = token v @ zs" by (auto simp: prefix_def)
      with "1.prems"(1) have "match_at s = Some (v, zs)" by (simp add: match_at_Some_iff)
      with None show False by simp
    qed
    with "1.prems"(2) s have "sublist (token v) (tl s)" by (simp add: sublist_Cons_right)
    with "1.IH" ne None "1.prems"(1) have "v \<in> set (findall (tl s))" by blast
    with ne None show ?thesis by (simp add: findall.simps [of s])
  next
    case (Some a)
    obtain name rest where a: "a = (name, rest)" by (cases a)
    with Some have m: "match_at s = Some (name, rest)" by simp
    then have vn: "valid_name name" and st: "s = token name @ rest"
      by (simp_all add: match_at_Some_iff)
    show ?thesis
    proof (cases "prefix (token v) s")
      case True
      with st "1.prems"(1) vn have "v = name" by (auto dest: prefix_token_same)
      with ne m show ?thesis by (simp add: findall.simps [of s])
    next
      case False
      with "1.prems"(2) s have "sublist (token v) (tl s)" by (simp add: sublist_Cons_right)
      with st have "sublist (token v) ((name @ ''}'') @ rest)" by (simp add: token_def)
      with brace_notin_name [OF vn] have "sublist (token v) rest" by (rule sublist_skip)
      with "1.IH" ne m "1.prems"(1) have "v \<in> set (findall rest)" by blast
      with ne m show ?thesis by (simp add: findall.simps [of s])
    qed
  qed
qed

lemma set_findall:
  "set (findall s) = {v. valid_name v \<and> sublist (token v) s}"
  using findall_sound findall_complete by blast

section \<open>The template indexer\<close>

lemma dict_get_upd:
  "dict_get (vp(m \<mapsto> l)) v = (if v = m then l else dict_get vp v)"
  by (simp add: dict_get_def)

lemma index_matches_snd:
  "set (dict_get (snd (index_matches i ms (vars, vp))) v) =
     set (dict_get vp v) \<union> (if v \<in> set ms then {i} else {})"
  by (induction ms arbitrary: vars vp) (auto simp: dict_get_upd)

lemma index_matches_fst:
  "fst (index_matches i ms (vars, vp)) = vars \<union> set ms"
  by (induction ms arbitrary: vars vp) auto

lemma index_paragraphs_snd:
  "j \<in> set (dict_get (snd (index_paragraphs k ps acc)) v) \<longleftrightarrow>
     j \<in> set (dict_get (snd acc) v)
     \<or> (k \<le> j \<and> j < k + length ps \<and> v \<in> set (findall (p_text (ps ! (j - k)))))"
proof (induction ps arbitrary: k acc)
  case Nil
  then show ?case by auto
next
  case (Cons p ps)
  obtain vars vp where acc: "acc = (vars, vp)" by (cases acc)
  have "j \<in> set (dict_get (snd (index_paragraphs k (p # ps) acc)) v) \<longleftrightarrow>
        j \<in> set (dict_get (snd (index_matches k (findall (p_text p)) acc)) v)
        \<or> (Suc k \<le> j \<and> j < Suc k + length ps \<and> v \<in> set (findall (p_text (ps ! (j - Suc k)))))"
    by (simp add: Cons.IH)
  also have "\<dots> \<longleftrightarrow> j \<in> set (dict_get vp v) \<or> (j = k \<and> v \<in> set (findall (p_text p)))
        \<or> (Suc k \<le> j \<and> j < Suc k + length ps \<and> v \<in> set (findall (p_text (ps ! (j - Suc k)))))"
    by (auto simp: acc index_matches_snd)
  also have "\<dots> \<longleftrightarrow> j \<in> set (dict_get (snd acc) v)
     \<or> (k \<le> j \<and> j < k + length (p # ps) \<and> v \<in> set (findall (p_text ((p # ps) ! (j - k)))))"
  proof (cases "j = k")
    case True
    then show ?thesis by (auto simp: acc)
  next
    case False
    show ?thesis
    proof (cases "k < j")
      case True
      then have "j - k = Suc (j - Suc k)" by simp
      then have "(p # ps) ! (j - k) = ps ! (j - Suc k)" by simp
      with True show ?thesis by (auto simp: acc)
    next
      case lt: False
      with False have "j < k" by simp
      then show ?thesis by (auto simp: acc)
    qed
  qed
  finally show ?case .
qed

lemma index_paragraphs_fst:
  "fst (index_paragraphs k ps acc) = fst acc \<union> (\<Union>p \<in> set ps. set (findall (p_text p)))"
proof (induction ps arbitrary: k acc)
  case Nil
  then show ?case by simp
next
  case (Cons p ps)
  obtain vars vp where acc: "acc = (vars, vp)" by (cases acc)
  show ?case by (auto simp: Cons.IH acc index_matches_fst)
qed

lemma scan_cell_eq:
  "scan_cell c vars = vars \<union> (\<Union>p \<in> set c. set (findall (p_text p)))"
  unfolding scan_cell_def by (induction c arbitrary: vars) auto

lemma fold_scan_cell:
  "fold scan_cell r vars = vars \<union> (\<Union>c \<in> set r. \<Union>p \<in> set c. set (findall (p_text p)))"
  by (induction r arbitrary: vars) (auto simp: scan_cell_eq)

lemma fold_scan_row:
  "fold (\<lambda>r vs. fold scan_cell r vs) t vars =
     vars \<union> (\<Union>r \<in> set t. \<Union>c \<in> set r. \<Union>p \<in> set c. set (findall (p_text p)))"
  by (induction t arbitrary: vars) (auto simp: fold_scan_cell)

lemma scan_tables_eq:
  "scan_tables ts vars =
     vars \<union> (\<Union>t \<in> set ts. \<Union>r \<in> set t. \<Union>c \<in> set r. \<Union>p \<in> set c. set (findall (p_text p)))"
  unfolding scan_tables_def by (induction ts arbitrary: vars) (auto simp: fold_scan_row)

text \<open>
  C5. For every template, every index \<open>i\<close> of a top-level paragraph and every variable
  name \<open>v\<close> (non-empty, without braces), the position list that the indexer builds for
  \<open>v\<close> contains \<open>i\<close> if and only if the text of paragraph \<open>i\<close> contains the token
  \<open>{v}\<close>.
\<close>

theorem position_index_iff:
  assumes "i < length (paragraphs doc)" and "valid_name v"
  shows "i \<in> set (dict_get (snd (extract_variables_from_template doc)) v)
         \<longleftrightarrow> sublist (token v) (p_text (paragraphs doc ! i))"
proof -
  obtain vars vp where ip: "index_paragraphs 0 (paragraphs doc) ({}, Map.empty) = (vars, vp)"
    by (cases "index_paragraphs 0 (paragraphs doc) ({}, Map.empty)")
  have "i \<in> set (dict_get (snd (index_paragraphs 0 (paragraphs doc) ({}, Map.empty))) v)
        \<longleftrightarrow> v \<in> set (findall (p_text (paragraphs doc ! i)))"
  proof -
    have "dict_get (snd ({}, Map.empty)) v = []" by (simp add: dict_get_def)
    with assms(1) show ?thesis by (simp add: index_paragraphs_snd)
  qed
  with ip have "i \<in> set (dict_get (snd (extract_variables_from_template doc)) v)
        \<longleftrightarrow> v \<in> set (findall (p_text (paragraphs doc ! i)))"
    by (simp add: extract_variables_from_template_def)
  with assms(2) show ?thesis by (simp add: set_findall)
qed

theorem position_index_iff_witness:
  "0 < length (paragraphs example_template) \<and> valid_name ''name''
   \<and> 0 \<in> set (dict_get (snd (extract_variables_from_template example_template)) ''name'')
   \<and> 1 \<notin> set (dict_get (snd (extract_variables_from_template example_template)) ''name'')"
  using position_index_iff [of 0 example_template "''name''"]
        position_index_iff [of 1 example_template "''name''"]
  by (simp add: example_template_def valid_name_def not_brace_def token_def sublist_code)

text \<open>
  C6. For every template, the set of variable names that the indexer returns is the set
  of the names whose token occurs in the text of a top-level paragraph or of a paragraph
  in a table cell.
\<close>

theorem variables_are_the_token_names:
  "fst (extract_variables_from_template doc) =
     {v. valid_name v \<and> (\<exists>txt \<in> set (template_texts doc). sublist (token v) txt)}"
proof -
  obtain vars vp where ip: "index_paragraphs 0 (paragraphs doc) ({}, Map.empty) = (vars, vp)"
    by (cases "index_paragraphs 0 (paragraphs doc) ({}, Map.empty)")
  then have vars: "vars = (\<Union>p \<in> set (paragraphs doc). set (findall (p_text p)))"
    using index_paragraphs_fst [of 0 "paragraphs doc" "({}, Map.empty)"] by simp
  have "fst (extract_variables_from_template doc) = scan_tables (tables doc) vars"
    using ip by (simp add: extract_variables_from_template_def)
  also have "\<dots> = (\<Union>p \<in> set (paragraphs doc @ cell_paragraphs doc). set (findall (p_text p)))"
    by (auto simp: scan_tables_eq vars cell_paragraphs_def)
  also have "\<dots> = {v. valid_name v \<and> (\<exists>txt \<in> set (template_texts doc). sublist (token v) txt)}"
    by (auto simp: set_findall template_texts_def)
  finally show ?thesis .
qed

theorem variables_are_the_token_names_witness:
  "''name'' \<in> fst (extract_variables_from_template example_template)
   \<and> ''ref'' \<in> fst (extract_variables_from_template example_template)
   \<and> ''balance'' \<notin> fst (extract_variables_from_template example_template)"
  unfolding variables_are_the_token_names [of example_template]
  by (simp add: example_template_def template_texts_def cell_paragraphs_def
        valid_name_def not_brace_def token_def sublist_code)

section \<open>The filename deriver\<close>

lemma sub_literal_Nil [simp]: "sub_literal pat rep [] = []"
  by (simp add: sub_literal.simps)

lemma sub_literal_single:
  "sub_literal [a] [b] s = map (\<lambda>c. if c = a then b else c) s"
proof (induction s)
  case Nil
  then show ?case by simp
next
  case (Cons c cs)
  show ?case
  proof (cases "c = a")
    case True
    have "sub_literal [a] [b] (a # cs) = b # sub_literal [a] [b] cs"
      by (simp add: sub_literal.simps [of "[a]" "[b]" "a # cs"])
    with True Cons show ?thesis by simp
  next
    case False
    have "sub_literal [a] [b] (c # cs) = c # sub_literal [a] [b] cs"
      using False by (simp add: sub_literal.simps [of "[a]" "[b]" "c # cs"])
    with False Cons show ?thesis by simp
  qed
qed

lemma re_sub_class_empty: "re_sub_class cls [] s = filter (\<lambda>c. \<not> cls c) s"
  unfolding re_sub_class_def by (induction s) auto

text \<open>
  C8. For every input text the filename deriver first replaces every space by an
  underscore and then removes every character that is not a word character, a hyphen, an
  underscore or a period; the text \<open>John Doe/2024\<close> gives \<open>John_Doe2024\<close>.
\<close>

theorem derive_filename_refines_spec:
  "derive_filename uw s = filename_spec uw s
   \<and> derive_filename uw ''John Doe/2024'' = ''John_Doe2024''"
proof -
  have eq: "derive_filename uw s = filename_spec uw s" for s
  proof -
    have m: "sub_literal '' '' ''_'' s = map space_to_underscore s"
      by (simp add: sub_literal_single space_to_underscore_def)
    show ?thesis
      by (simp add: derive_filename_def filename_spec_def m re_sub_class_empty invalid_char_def)
  qed
  have "filename_spec uw ''John Doe/2024'' = ''John_Doe2024''"
    by (simp add: filename_spec_def space_to_underscore_def is_word_def
          is_ascii_letter_def is_digit_def)
  with eq show ?thesis by simp
qed

theorem derive_filename_refines_spec_witness:
  "derive_filename (\<lambda>c. False) ''a b?.c-d'' = ''a_b.c-d''"
  using derive_filename_refines_spec [of "\<lambda>c. False" "''a b?.c-d''"]
  by (simp add: filename_spec_def space_to_underscore_def is_word_def
        is_ascii_letter_def is_digit_def)

lemma separator_invalid:
  "invalid_char uw (CHR ''/'')" "invalid_char uw backslash"
  by (simp_all add: invalid_char_def is_word_def is_ascii_letter_def is_digit_def backslash_def)

lemma derive_filename_no_separator:
  "CHR ''/'' \<notin> set (derive_filename uw s)" "backslash \<notin> set (derive_filename uw s)"
  using separator_invalid [of uw]
  by (auto simp: derive_filename_def re_sub_class_empty)

section \<open>The examples, evaluated\<close>

lemma example_index:
  "snd (extract_variables_from_template example_template) = [''name'' \<mapsto> [0], ''amount'' \<mapsto> [1]]"
  by (simp add: extract_variables_from_template_def example_template_def findall.simps
        match_at_def not_brace_def dict_get_def scan_tables_def scan_cell_def)

lemma example_state_eq:
  "example_state =
     \<lparr>docs = [example_template], var_paragraphs_map = [''name'' \<mapsto> [0], ''amount'' \<mapsto> [1]],
      files = Map.empty, dirs = {}\<rparr>"
  by (simp add: example_state_def example_index)

lemmas run_simps =
  generate_documents_def makedirs_def generate_row_def Document_new_def example_state_eq
  render_text_def variables_to_replace_def dict_get_def add_paragraph_def set_text_def
  pattern_sub_def backslash_def token_def sub_literal.simps save_def os_path_join_def
  derive_filename_def re_sub_class_def invalid_char_def is_word_def is_ascii_letter_def
  is_digit_def example_template_def ascii_only_def str_nat.simps digit_char_def
  parse_template.simps escape_item_def escape_char_def

lemma scenario_B_row:
  "generate_row ascii_only 0 name_mapping ''name'' ''out'' example_row example_state
   = (None, example_state\<lparr>docs := [example_template, \<lparr>paragraphs =
        [\<lparr>p_style = ''Title'', p_text = ''Dear Ana,''\<rparr>,
         \<lparr>p_style = ''Normal'', p_text = ''Your balance is {amount}.''\<rparr>], tables = []\<rparr>],
        files := [''out/Ana.docx'' \<mapsto> \<lparr>paragraphs =
        [\<lparr>p_style = ''Title'', p_text = ''Dear Ana,''\<rparr>,
         \<lparr>p_style = ''Normal'', p_text = ''Your balance is {amount}.''\<rparr>], tables = []\<rparr>]\<rparr>)"
  by (simp add: run_simps example_row_def name_mapping_def)

lemma scenario_A_files:
  "files (snd (generate_documents ascii_only [example_row] 0 all_mapping ''name'' ''out'' example_state))
     ''out/Ana.docx''
   = Some \<lparr>paragraphs =
        [\<lparr>p_style = ''Title'', p_text = ''Dear Ana,''\<rparr>,
         \<lparr>p_style = ''Normal'', p_text = ''Your balance is 42.''\<rparr>], tables = []\<rparr>"
  by (simp add: run_simps example_row_def all_mapping_def)

section \<open>What a run changes in the state\<close>

lemma add_then_set_text:
  "d < length (docs st) \<Longrightarrow>
     set_text d txt (add_paragraph d sty st) = append_paras d [\<lparr>p_style = sty, p_text = txt\<rparr>] st"
  by (simp add: set_text_def add_paragraph_def append_paras_def)

lemma append_paras_twice:
  "d < length (docs st) \<Longrightarrow>
     append_paras d qs (append_paras d ps st) = append_paras d (ps @ qs) st"
  by (simp add: append_paras_def)

lemma append_paras_fields [simp]:
  "var_paragraphs_map (append_paras d ps st) = var_paragraphs_map st"
  "files (append_paras d ps st) = files st"
  "dirs (append_paras d ps st) = dirs st"
  "length (docs (append_paras d ps st)) = length (docs st)"
  by (simp_all add: append_paras_def)

lemma add_paragraph_fields [simp]:
  "var_paragraphs_map (add_paragraph d sty st) = var_paragraphs_map st"
  "files (add_paragraph d sty st) = files st"
  "dirs (add_paragraph d sty st) = dirs st"
  "length (docs (add_paragraph d sty st)) = length (docs st)"
  "n \<le> d \<Longrightarrow> take n (docs (add_paragraph d sty st)) = take n (docs st)"
  by (simp_all add: add_paragraph_def)

lemma set_text_fields [simp]:
  "var_paragraphs_map (set_text d txt st) = var_paragraphs_map st"
  "files (set_text d txt st) = files st"
  "dirs (set_text d txt st) = dirs st"
  "length (docs (set_text d txt st)) = length (docs st)"
  "n \<le> d \<Longrightarrow> take n (docs (set_text d txt st)) = take n (docs st)"
  by (simp_all add: set_text_def)

lemma render_paragraphs_frame:
  "render_paragraphs cm reps d i ps st = (res, st') \<Longrightarrow>
     var_paragraphs_map st' = var_paragraphs_map st \<and> files st' = files st
     \<and> dirs st' = dirs st \<and> length (docs st') = length (docs st)
     \<and> (\<forall>n \<le> d. take n (docs st') = take n (docs st))"
proof (induction ps arbitrary: i st)
  case Nil
  then show ?case by simp
next
  case (Cons tp ps)
  show ?case
  proof (cases "render_text cm (var_paragraphs_map st) reps i (p_text tp)")
    case (Inl err)
    with Cons.prems show ?thesis by auto
  next
    case (Inr tx)
    with Cons.prems have
      "render_paragraphs cm reps d (Suc i) ps (set_text d tx (add_paragraph d (p_style tp) st))
         = (res, st')" by simp
    from Cons.IH [OF this] show ?thesis by simp
  qed
qed

lemma render_paragraphs_None:
  "d < length (docs st) \<Longrightarrow> render_paragraphs cm reps d i ps st = (None, st') \<Longrightarrow>
     \<exists>txts. length txts = length ps
       \<and> (\<forall>k < length ps.
             render_text cm (var_paragraphs_map st) reps (i + k) (p_text (ps ! k)) = Inr (txts ! k))
       \<and> st' = append_paras d (rendered ps txts) st"
proof (induction ps arbitrary: i st)
  case Nil
  then show ?case by (simp add: rendered_def append_paras_def)
next
  case (Cons tp ps)
  from Cons.prems(2) obtain tx where
    tx: "render_text cm (var_paragraphs_map st) reps i (p_text tp) = Inr tx"
    by (cases "render_text cm (var_paragraphs_map st) reps i (p_text tp)") auto
  let ?st1 = "append_paras d [\<lparr>p_style = p_style tp, p_text = tx\<rparr>] st"
  from Cons.prems tx have run: "render_paragraphs cm reps d (Suc i) ps ?st1 = (None, st')"
    by (simp add: add_then_set_text)
  have d1: "d < length (docs ?st1)" using Cons.prems(1) by simp
  from Cons.IH [OF d1 run] obtain txts where
    len: "length txts = length ps"
    and each: "\<forall>k < length ps.
        render_text cm (var_paragraphs_map st) reps (Suc i + k) (p_text (ps ! k)) = Inr (txts ! k)"
    and st': "st' = append_paras d (rendered ps txts) ?st1"
    by auto
  have "length (tx # txts) = length (tp # ps)" using len by simp
  moreover have "\<forall>k < length (tp # ps).
      render_text cm (var_paragraphs_map st) reps (i + k) (p_text ((tp # ps) ! k))
        = Inr ((tx # txts) ! k)"
  proof (intro allI impI)
    fix k assume k: "k < length (tp # ps)"
    show "render_text cm (var_paragraphs_map st) reps (i + k) (p_text ((tp # ps) ! k))
            = Inr ((tx # txts) ! k)"
    proof (cases k)
      case 0
      with tx show ?thesis by simp
    next
      case (Suc j)
      with k each show ?thesis by simp
    qed
  qed
  moreover have "st' = append_paras d (rendered (tp # ps) (tx # txts)) st"
    using st' Cons.prems(1) by (simp add: append_paras_twice rendered_def)
  ultimately show ?case by blast
qed


lemma Document_new_eq:
  "Document_new st = (length (docs st), st\<lparr>docs := docs st @ [\<lparr>paragraphs = [], tables = []\<rparr>]\<rparr>)"
  by (simp add: Document_new_def)

lemma save_fields [simp]:
  "var_paragraphs_map (save d path st) = var_paragraphs_map st"
  "docs (save d path st) = docs st"
  "dirs (save d path st) = dirs st"
  "files (save d path st) = (files st)(path \<mapsto> docs st ! d)"
  by (simp_all add: save_def)

lemma generate_row_frame:
  assumes "generate_row uw t cm fc od r st = (res, st')" and "n \<le> length (docs st)"
  shows "take n (docs st') = take n (docs st) \<and> length (docs st') = Suc (length (docs st))
     \<and> var_paragraphs_map st' = var_paragraphs_map st \<and> dirs st' = dirs st
     \<and> (\<forall>p. files st' p \<noteq> files st p \<longrightarrow> (\<exists>v. r fc = Some v \<and> p = output_path uw od v))"
proof -
  let ?d = "length (docs st)"
  let ?st1 = "st\<lparr>docs := docs st @ [\<lparr>paragraphs = [], tables = []\<rparr>]\<rparr>"
  show ?thesis
  proof (cases "replacements r cm")
    case (Inl err)
    with assms show ?thesis by (auto simp: generate_row_def Document_new_eq)
  next
    case (Inr reps)
    obtain res2 st2 where
      rp: "render_paragraphs cm reps ?d 0 (paragraphs (docs ?st1 ! t)) ?st1 = (res2, st2)"
      by (cases "render_paragraphs cm reps ?d 0 (paragraphs (docs ?st1 ! t)) ?st1")
    from render_paragraphs_frame [OF rp] assms(2) have
      f2: "var_paragraphs_map st2 = var_paragraphs_map st" "files st2 = files st"
          "dirs st2 = dirs st" "length (docs st2) = Suc ?d"
          "take n (docs st2) = take n (docs st)"
      by auto
    show ?thesis
    proof (cases res2)
      case (Some err)
      with assms(1) Inr rp f2 show ?thesis
        by (auto simp: generate_row_def Document_new_eq)
    next
      case None
      show ?thesis
      proof (cases "r fc")
        case nofile: None
        with assms(1) Inr rp None f2 show ?thesis
          by (auto simp: generate_row_def Document_new_eq)
      next
        case (Some v)
        with assms(1) Inr rp None have
          "st' = save ?d (output_path uw od v) st2"
          by (auto simp: generate_row_def Document_new_eq output_path_def)
        with f2 Some show ?thesis by auto
      qed
    qed
  qed
qed

lemma generate_row_None:
  assumes "generate_row uw t cm fc od r st = (None, st')" and "t < length (docs st)"
  shows "\<exists>reps txts v. replacements r cm = Inr reps \<and> r fc = Some v
     \<and> length txts = length (paragraphs (docs st ! t))
     \<and> (\<forall>k < length (paragraphs (docs st ! t)).
           render_text cm (var_paragraphs_map st) reps k (p_text (paragraphs (docs st ! t) ! k))
             = Inr (txts ! k))
     \<and> docs st' = docs st @ [\<lparr>paragraphs = rendered (paragraphs (docs st ! t)) txts, tables = []\<rparr>]
     \<and> files st' = (files st)(output_path uw od v \<mapsto>
                       \<lparr>paragraphs = rendered (paragraphs (docs st ! t)) txts, tables = []\<rparr>)"
proof -
  let ?d = "length (docs st)"
  let ?st1 = "st\<lparr>docs := docs st @ [\<lparr>paragraphs = [], tables = []\<rparr>]\<rparr>"
  let ?tps = "paragraphs (docs st ! t)"
  have tps: "paragraphs (docs ?st1 ! t) = ?tps" using assms(2) by (simp add: nth_append)
  from assms(1) obtain reps where reps: "replacements r cm = Inr reps"
    by (cases "replacements r cm") (auto simp: generate_row_def Document_new_eq)
  obtain res2 st2 where rp: "render_paragraphs cm reps ?d 0 ?tps ?st1 = (res2, st2)"
    by (cases "render_paragraphs cm reps ?d 0 ?tps ?st1")
  from assms(1) reps rp tps have res2: "res2 = None"
    by (cases res2) (auto simp: generate_row_def Document_new_eq)
  from assms(1) reps rp tps res2 obtain v where v: "r fc = Some v"
    and st': "st' = save ?d (output_path uw od v) st2"
    by (cases "r fc") (auto simp: generate_row_def Document_new_eq output_path_def)
  have d1: "?d < length (docs ?st1)" by simp
  from render_paragraphs_None [OF d1] rp res2 obtain txts where
    len: "length txts = length ?tps"
    and each: "\<forall>k < length ?tps.
        render_text cm (var_paragraphs_map ?st1) reps (0 + k) (p_text (?tps ! k)) = Inr (txts ! k)"
    and st2: "st2 = append_paras ?d (rendered ?tps txts) ?st1"
    by blast
  have docs2: "docs st2 = docs st @ [\<lparr>paragraphs = rendered ?tps txts, tables = []\<rparr>]"
    by (simp add: st2 append_paras_def)
  have files2: "files st2 = files st" by (simp add: st2)
  from each have each': "\<forall>k < length ?tps.
        render_text cm (var_paragraphs_map st) reps k (p_text (?tps ! k)) = Inr (txts ! k)"
    by simp
  from reps v len each' docs2 files2 st' show ?thesis by auto
qed

lemma generate_rows_frame:
  "generate_rows uw t cm fc od rs cnt st = (res, st') \<Longrightarrow> n \<le> length (docs st) \<Longrightarrow>
     take n (docs st') = take n (docs st) \<and> length (docs st) \<le> length (docs st')
     \<and> var_paragraphs_map st' = var_paragraphs_map st
     \<and> (\<forall>p. files st' p \<noteq> files st p \<longrightarrow> (\<exists>v. p = output_path uw od v))"
proof (induction rs arbitrary: cnt st)
  case Nil
  then show ?case by simp
next
  case (Cons r rs)
  obtain res1 st1 where g: "generate_row uw t cm fc od r st = (res1, st1)"
    by (cases "generate_row uw t cm fc od r st")
  note f1 = generate_row_frame [OF g Cons.prems(2)]
  show ?case
  proof (cases res1)
    case (Some err)
    with Cons.prems(1) g have "st' = st1" by simp
    with f1 show ?thesis by auto
  next
    case None
    with Cons.prems(1) g have
      run: "generate_rows uw t cm fc od rs (Suc cnt) st1 = (res, st')" by simp
    from f1 Cons.prems(2) have n1: "n \<le> length (docs st1)" by simp
    from Cons.IH [OF run n1] f1 show ?thesis by (metis Suc_leD order_refl order_trans le_SucI)
  qed
qed

lemma output_path_direct_child: "direct_child od (output_path uw od v)"
proof -
  let ?b = "derive_filename uw (py_str v) @ ''.docx''"
  have nosep: "CHR ''/'' \<notin> set ?b" "backslash \<notin> set ?b"
    using derive_filename_no_separator [of uw "py_str v"] by (auto simp: backslash_def)
  have "?b \<noteq> []" by simp
  moreover from nosep(1) have "hd ?b \<noteq> CHR ''/''"
    by (metis calculation hd_in_set)
  ultimately have "os_path_join od ?b = dir_prefix od @ ?b"
    by (simp add: os_path_join_def dir_prefix_def)
  with nosep show ?thesis by (simp add: direct_child_def output_path_def)
qed

lemma makedirs_fields [simp]:
  "var_paragraphs_map (makedirs p st) = var_paragraphs_map st"
  "docs (makedirs p st) = docs st"
  "files (makedirs p st) = files st"
  by (simp_all add: makedirs_def)

text \<open>
  C10. For every filename-source value the derived base name contains neither a slash nor
  a backslash, and every file that a batch run writes is a direct child of the output
  directory.
\<close>

theorem saved_documents_are_direct_children:
  "CHR ''/'' \<notin> set (derive_filename uw s) \<and> backslash \<notin> set (derive_filename uw s)
   \<and> (generate_documents uw df t cm fc od st = (res, st') \<longrightarrow> files st' p \<noteq> files st p
        \<longrightarrow> direct_child od p)"
proof -
  have "direct_child od p"
    if run: "generate_documents uw df t cm fc od st = (res, st')" and ch: "files st' p \<noteq> files st p"
  proof -
    from run have "generate_rows uw t cm fc od df 0 (makedirs od st) = (res, st')"
      by (simp add: generate_documents_def)
    from generate_rows_frame [OF this, of 0] ch obtain v where "p = output_path uw od v"
      by auto
    then show ?thesis by (simp add: output_path_direct_child)
  qed
  with derive_filename_no_separator [of uw s] show ?thesis by blast
qed

theorem saved_documents_are_direct_children_witness:
  "direct_child ''out'' ''out/Ana.docx''
   \<and> CHR ''/'' \<notin> set (derive_filename ascii_only ''John Doe/2024'')"
proof -
  let ?run = "generate_documents ascii_only [example_row] 0 all_mapping ''name'' ''out'' example_state"
  have r: "?run = (fst ?run, snd ?run)" by simp
  have ch: "files (snd ?run) ''out/Ana.docx'' \<noteq> files example_state ''out/Ana.docx''"
    by (simp add: scenario_A_files) (simp add: example_state_def)
  from saved_documents_are_direct_children
         [of ascii_only "''John Doe/2024''" "[example_row]" 0 all_mapping "''name''" "''out''"
             example_state "fst ?run" "snd ?run" "''out/Ana.docx''"] r ch
  show ?thesis by blast
qed

text \<open>
  C9. A batch run over any rows, whether it ends normally or with an exception, leaves
  the template document and the position index as they were.
\<close>

theorem template_and_index_not_mutated:
  assumes "generate_documents uw df t cm fc od st = (res, st')" and "t < length (docs st)"
  shows "docs st' ! t = docs st ! t \<and> var_paragraphs_map st' = var_paragraphs_map st"
proof -
  from assms(1) have run: "generate_rows uw t cm fc od df 0 (makedirs od st) = (res, st')"
    by (simp add: generate_documents_def)
  have "Suc t \<le> length (docs (makedirs od st))" using assms(2) by simp
  from generate_rows_frame [OF run this]
  have tk: "take (Suc t) (docs st') = take (Suc t) (docs st)"
    and vp: "var_paragraphs_map st' = var_paragraphs_map st" by simp_all
  have "docs st' ! t = take (Suc t) (docs st') ! t" by simp
  also have "\<dots> = take (Suc t) (docs st) ! t" by (simp only: tk)
  also have "\<dots> = docs st ! t" by simp
  finally show ?thesis using vp by simp
qed

theorem template_and_index_not_mutated_witness:
  "docs (snd (generate_documents ascii_only [example_row, name_only_row] 0 all_mapping ''name''
                ''out'' example_state)) ! 0 = example_template
   \<and> var_paragraphs_map (snd (generate_documents ascii_only [example_row, name_only_row] 0
                all_mapping ''name'' ''out'' example_state))
       = snd (extract_variables_from_template example_template)"
proof -
  let ?run = "generate_documents ascii_only [example_row, name_only_row] 0 all_mapping ''name''
                ''out'' example_state"
  have "?run = (fst ?run, snd ?run)" by simp
  moreover have "0 < length (docs example_state)" by (simp add: example_state_def)
  ultimately have "docs (snd ?run) ! 0 = docs example_state ! 0
      \<and> var_paragraphs_map (snd ?run) = var_paragraphs_map example_state"
    by (rule template_and_index_not_mutated)
  then show ?thesis by (simp add: example_state_def)
qed

section \<open>Substitution leaves the tokens of other variables alone\<close>

lemma sublist_iff_count: "tok \<noteq> [] \<Longrightarrow> sublist tok s \<longleftrightarrow> 0 < count_occ tok s"
  by (induction s) (auto simp: sublist_Cons_right)

lemma count_skip:
  "CHR ''{'' \<notin> set xs \<Longrightarrow> count_occ (token b) (xs @ ys) = count_occ (token b) ys"
  by (induction xs) (auto simp: token_def)

lemma count_append_ge: "count_occ tok ys \<le> count_occ tok (xs @ ys)"
  by (induction xs) auto

lemma sub_literal_match:
  "pat \<noteq> [] \<Longrightarrow> sub_literal pat rep (pat @ rest) = rep @ sub_literal pat rep rest"
  using sub_literal.simps [of pat rep "pat @ rest"] by simp

lemma sub_literal_nomatch:
  "\<not> prefix pat (c # cs) \<Longrightarrow> sub_literal pat rep (c # cs) = c # sub_literal pat rep cs"
  using sub_literal.simps [of pat rep "c # cs"] by simp

lemma sub_skip:
  "CHR ''{'' \<notin> set xs \<Longrightarrow>
     sub_literal (token a) rep (xs @ ys) = xs @ sub_literal (token a) rep ys"
proof (induction xs)
  case Nil
  then show ?case by simp
next
  case (Cons x xs)
  then have "\<not> prefix (token a) (x # xs @ ys)" by (auto simp: token_def)
  then have "sub_literal (token a) rep (x # xs @ ys) = x # sub_literal (token a) rep (xs @ ys)"
    by (rule sub_literal_nomatch)
  with Cons show ?case by simp
qed

lemma brace_free_tail: "list_all not_brace a \<Longrightarrow> CHR ''{'' \<notin> set (a @ ''}'')"
  by (auto simp: list_all_iff not_brace_def)

lemma prefix_tokens_same:
  assumes "list_all not_brace a" "list_all not_brace b"
    and "prefix (token a) s" "prefix (token b) s"
  shows "a = b"
proof -
  from assms(3) obtain r1 where "s = token a @ r1" by (auto simp: prefix_def)
  moreover from assms(4) obtain r2 where "s = token b @ r2" by (auto simp: prefix_def)
  ultimately have e: "a @ CHR ''}'' # r1 = b @ CHR ''}'' # r2" by (simp add: token_def)
  have "takeWhile not_brace (a @ CHR ''}'' # r1) = a" using assms(1) by (rule takeWhile_name)
  moreover have "takeWhile not_brace (b @ CHR ''}'' # r2) = b" using assms(2) by (rule takeWhile_name)
  ultimately show ?thesis using e by simp
qed

lemma count_sub_literal:
  assumes a: "list_all not_brace a" and b: "list_all not_brace b" and ab: "a \<noteq> b"
  shows "count_occ (token b) s \<le> count_occ (token b) (sub_literal (token a) rep s)"
proof (induction s rule: length_induct)
  case (1 s)
  show ?case
  proof (cases s)
    case Nil
    then show ?thesis by simp
  next
    case (Cons c cs)
    show ?thesis
    proof (cases "prefix (token a) s")
      case True
      then obtain rest where s: "s = token a @ rest" by (auto simp: prefix_def)
      have "token a \<noteq> []" by (simp add: token_def)
      then have sub: "sub_literal (token a) rep s = rep @ sub_literal (token a) rep rest"
        unfolding s by (rule sub_literal_match)
      from True a b ab have "\<not> prefix (token b) s" by (auto dest: prefix_tokens_same)
      moreover have "s = CHR ''{'' # (a @ ''}'') @ rest" using s by (simp add: token_def)
      ultimately have "count_occ (token b) s = count_occ (token b) ((a @ ''}'') @ rest)" by simp
      also have "\<dots> = count_occ (token b) rest"
        using brace_free_tail [OF a] by (rule count_skip)
      also have "\<dots> \<le> count_occ (token b) (sub_literal (token a) rep rest)"
        using "1.IH" s by (simp add: token_def)
      also have "\<dots> \<le> count_occ (token b) (rep @ sub_literal (token a) rep rest)"
        by (rule count_append_ge)
      finally show ?thesis by (simp add: sub)
    next
      case False
      with Cons have sub: "sub_literal (token a) rep (c # cs) = c # sub_literal (token a) rep cs"
        by (simp add: sub_literal_nomatch)
      have ih: "count_occ (token b) cs \<le> count_occ (token b) (sub_literal (token a) rep cs)"
        using "1.IH" Cons by simp
      show ?thesis
      proof (cases "prefix (token b) s")
        case True
        then obtain rest where s: "s = token b @ rest" by (auto simp: prefix_def)
        with Cons have c: "c = CHR ''{''" and cs: "cs = (b @ ''}'') @ rest"
          by (simp_all add: token_def)
        have "sub_literal (token a) rep cs = (b @ ''}'') @ sub_literal (token a) rep rest"
          unfolding cs using brace_free_tail [OF b] by (rule sub_skip)
        with c have "prefix (token b) (c # sub_literal (token a) rep cs)"
          by (simp add: token_def)
        with True Cons ih show ?thesis by (simp add: sub)
      next
        case nb: False
        with Cons ih show ?thesis by (simp add: sub)
      qed
    qed
  qed
qed

lemma count_pattern_sub:
  assumes "list_all not_brace a" "list_all not_brace b" "a \<noteq> b"
    and "pattern_sub (token a) repl s = Inr s'"
  shows "count_occ (token b) s \<le> count_occ (token b) s'"
  using assms(4) count_sub_literal [OF assms(1-3)]
  by (auto simp: pattern_sub_def split: if_splits sum.splits)

lemma count_substitute_all:
  assumes b: "list_all not_brace b"
  shows "substitute_all reps vars s = Inr s' \<Longrightarrow>
     \<forall>a \<in> set vars. list_all not_brace a \<and> a \<noteq> b \<Longrightarrow>
     count_occ (token b) s \<le> count_occ (token b) s'"
proof (induction vars arbitrary: s)
  case Nil
  then show ?case by simp
next
  case (Cons a vars)
  from Cons.prems(1) obtain rv where rv: "map_of reps a = Some rv"
    by (cases "map_of reps a") auto
  with Cons.prems(1) obtain s1 where s1: "pattern_sub (token a) rv s = Inr s1"
    and rest: "substitute_all reps vars s1 = Inr s'"
    by (cases "pattern_sub (token a) rv s") auto
  from Cons.prems(2) have "list_all not_brace a" "a \<noteq> b" by simp_all
  from count_pattern_sub [OF this(1) b this(2) s1]
  have "count_occ (token b) s \<le> count_occ (token b) s1" .
  moreover from Cons.IH [OF rest] Cons.prems(2)
  have "count_occ (token b) s1 \<le> count_occ (token b) s'" by simp
  ultimately show ?case by simp
qed

lemma indexed_names_valid:
  assumes "i \<in> set (dict_get (snd (extract_variables_from_template doc)) v)"
  shows "valid_name v"
proof -
  obtain vars vp where ip: "index_paragraphs 0 (paragraphs doc) ({}, Map.empty) = (vars, vp)"
    by (cases "index_paragraphs 0 (paragraphs doc) ({}, Map.empty)")
  with assms have "i \<in> set (dict_get (snd (index_paragraphs 0 (paragraphs doc) ({}, Map.empty))) v)"
    by (simp add: extract_variables_from_template_def)
  moreover have "dict_get (snd ({}, Map.empty)) v = []" by (simp add: dict_get_def)
  ultimately have "v \<in> set (findall (p_text (paragraphs doc ! i)))"
    by (simp add: index_paragraphs_snd)
  then show ?thesis by (simp add: findall_sound)
qed

lemma rendered_nth:
  "length txts = length ps \<Longrightarrow> i < length ps \<Longrightarrow>
     rendered ps txts ! i = \<lparr>p_style = p_style (ps ! i), p_text = txts ! i\<rparr>"
  by (simp add: rendered_def)

lemma rendered_length: "length txts = length ps \<Longrightarrow> length (rendered ps txts) = length ps"
  by (simp add: rendered_def)

text \<open>
  Top-level paragraphs. With the position index that the indexer builds for the template:
  when the model renders a row without an error, every token of a variable name that is
  not a key of the mapping is in the saved document, in the top-level paragraph where the
  template has it, at least as often as in the template. The tokens in table cells are
  another matter, see the section on tables.
\<close>

lemma unmapped_tokens_stay_in_paragraphs:
  assumes run: "generate_row uw t cm fc od r st = (None, st')"
    and t: "t < length (docs st)"
    and vp: "var_paragraphs_map st = snd (extract_variables_from_template (docs st ! t))"
    and i: "i < length (paragraphs (docs st ! t))"
    and b: "valid_name b"
    and unmapped: "b \<notin> fst ` set cm"
  shows "\<exists>v gd. r fc = Some v \<and> files st' (output_path uw od v) = Some gd
           \<and> length (paragraphs gd) = length (paragraphs (docs st ! t))
           \<and> count_occ (token b) (p_text (paragraphs (docs st ! t) ! i))
               \<le> count_occ (token b) (p_text (paragraphs gd ! i))
           \<and> (sublist (token b) (p_text (paragraphs (docs st ! t) ! i))
                \<longrightarrow> sublist (token b) (p_text (paragraphs gd ! i)))"
proof -
  let ?tps = "paragraphs (docs st ! t)"
  from generate_row_None [OF run t] obtain reps txts v where
    v: "r fc = Some v" and len: "length txts = length ?tps"
    and each: "\<forall>k < length ?tps.
        render_text cm (var_paragraphs_map st) reps k (p_text (?tps ! k)) = Inr (txts ! k)"
    and files: "files st' = (files st)(output_path uw od v \<mapsto>
                       \<lparr>paragraphs = rendered ?tps txts, tables = []\<rparr>)"
    by blast
  let ?gd = "\<lparr>paragraphs = rendered ?tps txts, tables = []\<rparr>"
  from b have bf: "list_all not_brace b" by (simp add: valid_name_def)
  from each i have
    "substitute_all reps (variables_to_replace cm (var_paragraphs_map st) i) (p_text (?tps ! i))
       = Inr (txts ! i)"
    by (simp add: render_text_def)
  moreover have "\<forall>a \<in> set (variables_to_replace cm (var_paragraphs_map st) i).
      list_all not_brace a \<and> a \<noteq> b"
  proof
    fix a assume "a \<in> set (variables_to_replace cm (var_paragraphs_map st) i)"
    then have key: "a \<in> fst ` set cm" and idx: "i \<in> set (dict_get (var_paragraphs_map st) a)"
      by (auto simp: variables_to_replace_def)
    from idx vp have "valid_name a" by (simp add: indexed_names_valid)
    with key unmapped show "list_all not_brace a \<and> a \<noteq> b" by (auto simp: valid_name_def)
  qed
  ultimately have cnt: "count_occ (token b) (p_text (?tps ! i)) \<le> count_occ (token b) (txts ! i)"
    by (rule count_substitute_all [OF bf])
  have gdi: "p_text (paragraphs ?gd ! i) = txts ! i" using len i by (simp add: rendered_nth)
  have tok: "token b \<noteq> []" by (simp add: token_def)
  have "files st' (output_path uw od v) = Some ?gd" by (simp add: files)
  moreover have "length (paragraphs ?gd) = length ?tps" using len by (simp add: rendered_length)
  moreover have "count_occ (token b) (p_text (?tps ! i)) \<le> count_occ (token b) (p_text (paragraphs ?gd ! i))"
    using cnt gdi by simp
  moreover have "sublist (token b) (p_text (?tps ! i)) \<longrightarrow> sublist (token b) (p_text (paragraphs ?gd ! i))"
    using cnt gdi by (simp add: sublist_iff_count [OF tok])
  ultimately show ?thesis using v by blast
qed

lemma unmapped_tokens_stay_in_paragraphs_example:
  "\<exists>gd. files (snd (generate_row ascii_only 0 name_mapping ''name'' ''out'' example_row
                       example_state)) ''out/Ana.docx'' = Some gd
      \<and> length (paragraphs gd) = 2
      \<and> sublist (token ''amount'') (p_text (paragraphs gd ! 1))"
proof -
  let ?st' = "snd (generate_row ascii_only 0 name_mapping ''name'' ''out'' example_row example_state)"
  have run: "generate_row ascii_only 0 name_mapping ''name'' ''out'' example_row example_state
      = (None, ?st')"
    by (simp add: scenario_B_row)
  have t: "0 < length (docs example_state)" by (simp add: example_state_def)
  have vp: "var_paragraphs_map example_state
      = snd (extract_variables_from_template (docs example_state ! 0))"
    by (simp add: example_state_def)
  have i: "1 < length (paragraphs (docs example_state ! 0))"
    by (simp add: example_state_def example_template_def)
  have b: "valid_name ''amount''" by (simp add: valid_name_def not_brace_def)
  have u: "''amount'' \<notin> fst ` set name_mapping" by (simp add: name_mapping_def)
  from unmapped_tokens_stay_in_paragraphs [OF run t vp i b u] obtain v gd where
    v: "example_row ''name'' = Some v"
    and f: "files ?st' (output_path ascii_only ''out'' v) = Some gd"
    and l: "length (paragraphs gd) = length (paragraphs (docs example_state ! 0))"
    and s: "sublist (token ''amount'') (p_text (paragraphs (docs example_state ! 0) ! 1))
             \<longrightarrow> sublist (token ''amount'') (p_text (paragraphs gd ! 1))"
    by blast
  from v have "v = SStr ''Ana''" by (simp add: example_row_def)
  then have "output_path ascii_only ''out'' v = ''out/Ana.docx''"
    by (simp add: output_path_def os_path_join_def derive_filename_def re_sub_class_def
          invalid_char_def is_word_def is_ascii_letter_def is_digit_def ascii_only_def
          sub_literal.simps)
  with f have "files ?st' ''out/Ana.docx'' = Some gd" by simp
  moreover from l have "length (paragraphs gd) = 2"
    by (simp add: example_state_def example_template_def)
  moreover have "sublist (token ''amount'') (p_text (paragraphs (docs example_state ! 0) ! 1))"
    by (simp add: example_state_def example_template_def token_def sublist_code)
  with s have "sublist (token ''amount'') (p_text (paragraphs gd ! 1))" by simp
  ultimately show ?thesis by blast
qed

section \<open>Missing columns and empty values\<close>

lemma replacements_missing:
  "(var, column) \<in> set cm \<Longrightarrow> r column = None \<Longrightarrow>
     \<exists>c \<in> snd ` set cm. r c = None \<and> replacements r cm = Inl (KeyError c)"
proof (induction cm)
  case Nil
  then show ?case by simp
next
  case (Cons e cm)
  obtain w col where e: "e = (w, col)" by (cases e)
  show ?case
  proof (cases "r col")
    case None
    with e show ?thesis by auto
  next
    case (Some val)
    with Cons.prems e have "(var, column) \<in> set cm" by auto
    from Cons.IH [OF this Cons.prems(2)] obtain c where
      "c \<in> snd ` set cm" "r c = None" "replacements r cm = Inl (KeyError c)" by blast
    with e Some show ?thesis by auto
  qed
qed

lemma replacements_Inr:
  "replacements r cm = Inr reps \<Longrightarrow>
     map fst reps = map fst cm
     \<and> (\<forall>var column. (var, column) \<in> set cm \<longrightarrow>
           (\<exists>val. r column = Some val \<and> (var, py_str val) \<in> set reps))"
proof (induction cm arbitrary: reps)
  case Nil
  then show ?case by simp
next
  case (Cons e cm)
  obtain w col where e: "e = (w, col)" by (cases e)
  from Cons.prems e obtain val where val: "r col = Some val"
    by (cases "r col") auto
  from Cons.prems e val obtain reps' where reps': "replacements r cm = Inr reps'"
    and reps: "reps = (w, py_str val) # reps'"
    by (cases "replacements r cm") auto
  from Cons.IH [OF reps'] e val reps show ?case by auto
qed

lemma replacement_value:
  assumes "replacements r cm = Inr reps" "distinct (map fst cm)"
    and "(var, column) \<in> set cm" "r column = Some val"
  shows "map_of reps var = Some (py_str val)"
proof -
  from replacements_Inr [OF assms(1)]
  have keys: "map fst reps = map fst cm"
    and all: "\<forall>var column. (var, column) \<in> set cm \<longrightarrow>
           (\<exists>val. r column = Some val \<and> (var, py_str val) \<in> set reps)"
    by simp_all
  from all assms(3) obtain val' where "r column = Some val'" "(var, py_str val') \<in> set reps"
    by blast
  with assms(4) have "(var, py_str val) \<in> set reps" by simp
  moreover from keys assms(2) have "distinct (map fst reps)" by simp
  ultimately show ?thesis by simp
qed

text \<open>
  C1, as the specification states it, fails: the row has no column \<open>amount\<close>, the
  mapping names it, and the run ends with \<^verbatim>\<open>KeyError\<close> without writing a document.
\<close>

theorem missing_column_counterexample:
  "fst (generate_documents ascii_only [name_only_row] 0 full_mapping ''name'' ''out'' example_state)
     = Inl (KeyError ''amount'')
   \<and> files (snd (generate_documents ascii_only [name_only_row] 0 full_mapping ''name'' ''out''
                   example_state)) ''out/Ana.docx'' = None"
  by (simp add: run_simps name_only_row_def full_mapping_def)

text \<open>
  C1, amended. For every row, column mapping, template and position index: when the
  column mapped to a variable is absent from the row, rendering the row raises a key
  error for a mapped column that the row lacks and writes no file. When the column is
  there and its value is the empty text, the substitution step of that variable replaces
  each match of its token by the empty text and raises no error.
\<close>

theorem missing_column_raises_empty_text_blanks:
  "((var, column) \<in> set cm \<and> r column = None \<longrightarrow>
      (\<exists>c \<in> snd ` set cm. r c = None
           \<and> fst (generate_row uw t cm fc od r st) = Some (KeyError c))
      \<and> files (snd (generate_row uw t cm fc od r st)) = files st)
   \<and> ((var, column) \<in> set cm \<and> distinct (map fst cm) \<and> r column = Some (SStr [])
      \<and> replacements r cm = Inr reps \<longrightarrow>
      substitute_all reps (var # vars) s
        = substitute_all reps vars (sub_literal (token var) [] s))"
proof (intro conjI impI)
  assume h: "(var, column) \<in> set cm \<and> r column = None"
  then obtain c where c: "c \<in> snd ` set cm" "r c = None"
    and rep: "replacements r cm = Inl (KeyError c)"
    using replacements_missing by blast
  from rep have "generate_row uw t cm fc od r st
      = (Some (KeyError c), st\<lparr>docs := docs st @ [\<lparr>paragraphs = [], tables = []\<rparr>]\<rparr>)"
    by (simp add: generate_row_def Document_new_def)
  with c show "\<exists>c \<in> snd ` set cm. r c = None
      \<and> fst (generate_row uw t cm fc od r st) = Some (KeyError c)"
    and "files (snd (generate_row uw t cm fc od r st)) = files st"
    by auto
next
  assume h: "(var, column) \<in> set cm \<and> distinct (map fst cm) \<and> r column = Some (SStr [])
      \<and> replacements r cm = Inr reps"
  then have "map_of reps var = Some (py_str (SStr []))"
    using replacement_value by blast
  then show "substitute_all reps (var # vars) s
        = substitute_all reps vars (sub_literal (token var) [] s)"
    by (simp add: pattern_sub_def)
qed

theorem missing_column_raises_empty_text_blanks_witness:
  "fst (generate_row ascii_only 0 full_mapping ''name'' ''out'' name_only_row example_state)
     = Some (KeyError ''amount'')
   \<and> files (snd (generate_row ascii_only 0 full_mapping ''name'' ''out'' name_only_row
                   example_state)) = files example_state
   \<and> substitute_all [(''name'', [])] [''name''] ''Dear {name},'' = Inr ''Dear ,''"
proof -
  have a: "(''amount'', ''amount'') \<in> set full_mapping \<and> name_only_row ''amount'' = None"
    by (simp add: full_mapping_def name_only_row_def)
  from missing_column_raises_empty_text_blanks [of "''amount''" "''amount''" full_mapping name_only_row ascii_only 0 "''name''" "''out''"
      example_state] a
  obtain c where c: "c \<in> snd ` set full_mapping" "name_only_row c = None"
    and e: "fst (generate_row ascii_only 0 full_mapping ''name'' ''out'' name_only_row example_state)
              = Some (KeyError c)"
    and f: "files (snd (generate_row ascii_only 0 full_mapping ''name'' ''out'' name_only_row
                   example_state)) = files example_state"
    by blast
  from c have "c = ''amount''" by (auto simp: full_mapping_def name_only_row_def split: if_splits)
  with e have e': "fst (generate_row ascii_only 0 full_mapping ''name'' ''out'' name_only_row
      example_state) = Some (KeyError ''amount'')" by simp
  have b: "(''name'', ''name'') \<in> set name_mapping \<and> distinct (map fst name_mapping)
      \<and> blank_name_row ''name'' = Some (SStr [])
      \<and> replacements blank_name_row name_mapping = Inr [(''name'', [])]"
    by (simp add: name_mapping_def blank_name_row_def)
  from missing_column_raises_empty_text_blanks [of "''name''" "''name''" name_mapping blank_name_row _ _ _ _ _ "[(''name'', [])]" "[]"
      "''Dear {name},''"] b
  have "substitute_all [(''name'', [])] [''name''] ''Dear {name},''
      = substitute_all [(''name'', [])] [] (sub_literal (token ''name'') [] ''Dear {name},'')"
    by blast
  also have "\<dots> = Inr ''Dear ,''"
    by (simp add: token_def sub_literal.simps)
  finally show ?thesis using e' f by simp
qed

text \<open>
  A cell without a value reaches the generator as NaN, and \<^verbatim>\<open>str\<close> of it is the text
  \<open>nan\<close>: that text, not the empty text, replaces the token.
\<close>

lemma nan_value_renders_as_nan:
  "files (snd (generate_documents ascii_only [nan_row] 0 name_mapping ''name'' ''out''
                 example_state)) ''out/nan.docx''
     = Some \<lparr>paragraphs =
          [\<lparr>p_style = ''Title'', p_text = ''Dear nan,''\<rparr>,
           \<lparr>p_style = ''Normal'', p_text = ''Your balance is {amount}.''\<rparr>], tables = []\<rparr>"
  by (simp add: run_simps nan_row_def name_mapping_def)

section \<open>Row values with a backslash\<close>

text \<open>A row value without a backslash is substituted as it is.\<close>

lemma pattern_sub_literal:
  "backslash \<notin> set v \<Longrightarrow> pattern_sub pat v s = Inr (sub_literal pat v s)"
  by (simp add: pattern_sub_def)

text \<open>
  C2 at the row value \<^verbatim>\<open>C:\temp\<close>: the value is compiled as a replacement template,
  so the saved paragraph has a tab character where the value has \<^verbatim>\<open>\t\<close>. At the value
  \<^verbatim>\<open>C:\Users\<close> the compilation fails and the run ends with the error.
\<close>

theorem backslash_value_is_a_template:
  "files (snd (generate_documents ascii_only [backslash_t_row] 0 name_mapping ''id'' ''out''
                 example_state)) ''out/r1.docx''
     = Some \<lparr>paragraphs =
          [\<lparr>p_style = ''Title'', p_text = ''Dear C:'' @ [CHR 0x09] @ ''emp,''\<rparr>,
           \<lparr>p_style = ''Normal'', p_text = ''Your balance is {amount}.''\<rparr>], tables = []\<rparr>
   \<and> fst (generate_documents ascii_only [backslash_U_row] 0 name_mapping ''id'' ''out''
            example_state) = Inl TemplateError"
  by (simp add: run_simps backslash_t_row_def backslash_U_row_def name_mapping_def)

section \<open>Tables of the template\<close>

lemma render_text_empty_mapping: "render_text [] vp reps i s = Inr s"
  by (simp add: render_text_def variables_to_replace_def)

lemma rendered_same:
  assumes "length txts = length ps" "\<forall>k < length ps. txts ! k = p_text (ps ! k)"
  shows "rendered ps txts = ps"
proof (rule nth_equalityI)
  show "length (rendered ps txts) = length ps" using assms(1) by (simp add: rendered_def)
next
  fix k assume "k < length (rendered ps txts)"
  with assms show "rendered ps txts ! k = ps ! k" by (simp add: rendered_def)
qed

lemma empty_mapping_copies_paragraphs:
  assumes "generate_row uw t [] fc od r st = (None, st')" and "t < length (docs st)"
  shows "\<exists>v. r fc = Some v
     \<and> files st' (output_path uw od v) = Some \<lparr>paragraphs = paragraphs (docs st ! t), tables = []\<rparr>"
proof -
  let ?tps = "paragraphs (docs st ! t)"
  from generate_row_None [OF assms] obtain reps txts v where
    v: "r fc = Some v" and len: "length txts = length ?tps"
    and each: "\<forall>k < length ?tps.
        render_text [] (var_paragraphs_map st) reps k (p_text (?tps ! k)) = Inr (txts ! k)"
    and files: "files st' = (files st)(output_path uw od v \<mapsto>
                       \<lparr>paragraphs = rendered ?tps txts, tables = []\<rparr>)"
    by blast
  from each have "\<forall>k < length ?tps. txts ! k = p_text (?tps ! k)"
    by (simp add: render_text_empty_mapping)
  with len have "rendered ?tps txts = ?tps" by (rule rendered_same)
  with v files show ?thesis by simp
qed

text \<open>
  C3 at the example template, which has a table: with an empty column mapping the saved
  document has the paragraphs of the template and no table.
\<close>

theorem empty_mapping_drops_tables:
  "files (snd (generate_documents ascii_only [example_row] 0 [] ''name'' ''out'' example_state))
     ''out/Ana.docx''
     = Some \<lparr>paragraphs = paragraphs example_template, tables = []\<rparr>
   \<and> tables example_template \<noteq> []"
  by (simp add: run_simps example_row_def)

text \<open>
  C4 at the example template, whose table cell holds the token \<open>{ref}\<close>: the saved
  document has two paragraphs and no table, so the text of the cell is not in it.
\<close>

theorem table_placeholders_absent:
  "files (snd (generate_documents ascii_only [example_row] 0 all_mapping ''name'' ''out''
                 example_state)) ''out/Ana.docx''
     = Some \<lparr>paragraphs =
          [\<lparr>p_style = ''Title'', p_text = ''Dear Ana,''\<rparr>,
           \<lparr>p_style = ''Normal'', p_text = ''Your balance is 42.''\<rparr>], tables = []\<rparr>
   \<and> cell_paragraphs example_template = [\<lparr>p_style = ''Normal'', p_text = ''Ref {ref}''\<rparr>]"
  by (simp add: run_simps example_row_def all_mapping_def cell_paragraphs_def)

text \<open>
  C7 at the example template and a mapping without the key \<open>ref\<close>: the template has
  the token \<open>{ref}\<close> in its table cell, and no text of the saved document has it. The
  claim holds for the tokens in top-level paragraphs
  (\<open>unmapped_tokens_stay_in_paragraphs\<close>); it fails for those in tables, which the
  renderer does not copy.
\<close>

theorem unmapped_table_token_lost:
  "''ref'' \<notin> set (map fst full_mapping)
   \<and> list_ex (sublist (token ''ref'')) (template_texts example_template)
   \<and> files (snd (generate_documents ascii_only [example_row] 0 full_mapping ''name'' ''out''
                   example_state)) ''out/Ana.docx'' = Some saved_without_ref
   \<and> \<not> list_ex (sublist (token ''ref'')) (template_texts saved_without_ref)"
proof -
  have "''ref'' \<notin> set (map fst full_mapping)" by (simp add: full_mapping_def)
  moreover have "list_ex (sublist (token ''ref'')) (template_texts example_template)"
    by (simp add: template_texts_def cell_paragraphs_def example_template_def token_def
          sublist_code)
  moreover have "files (snd (generate_documents ascii_only [example_row] 0 full_mapping ''name''
      ''out'' example_state)) ''out/Ana.docx'' = Some saved_without_ref"
    by (simp add: run_simps example_row_def full_mapping_def saved_without_ref_def)
  moreover have "\<not> list_ex (sublist (token ''ref'')) (template_texts saved_without_ref)"
    by (simp add: template_texts_def cell_paragraphs_def saved_without_ref_def token_def
          sublist_code)
  ultimately show ?thesis by simp
qed

end
